theory Spec2Isabelle
  imports Main
begin

section \<open>The sandbox start-up script \<^verbatim>\<open>start_browser.sh\<close>\<close>

text \<open>
  The script launches the browser API in the background, polls its liveness endpoint
  with \<^verbatim>\<open>curl\<close> for at most thirty rounds, pre-warms the browser after the first
  round whose \<^verbatim>\<open>curl\<close> succeeds, and finally waits for the browser process.
  Everything outside the script (the server behind the two endpoints and the browser
  process) is a parameter of the model, the \<open>world\<close>; everything the script does is
  recorded, in order, as a list of events.
\<close>

subsection \<open>\<^verbatim>\<open>curl\<close> as the script invokes it\<close>

text \<open>
  A transfer either breaks down before an HTTP response is complete (\<^verbatim>\<open>curl\<close> then
  exits with its own error code, never \<open>0\<close>), or it delivers a response with some status
  code. The script passes neither \<^verbatim>\<open>-f\<close> nor \<^verbatim>\<open>--fail\<close>, so a delivered response ends
  \<^verbatim>\<open>curl\<close> with exit status \<open>0\<close> whatever its status code is.
\<close>

datatype transfer_error =
  CouldntResolveHost | CouldntConnect | OperationTimedout | GotNothing | RecvError

fun error_code :: "transfer_error \<Rightarrow> nat" where
  "error_code CouldntResolveHost = 6"
| "error_code CouldntConnect = 7"
| "error_code OperationTimedout = 28"
| "error_code GotNothing = 52"
| "error_code RecvError = 56"

datatype curl_outcome = TransferFailed transfer_error | Responded nat

fun curl_exit :: "curl_outcome \<Rightarrow> nat" where
  "curl_exit (TransferFailed e) = error_code e"
| "curl_exit (Responded status) = 0"

definition is_2xx :: "nat \<Rightarrow> bool" where
  "is_2xx status = (200 \<le> status \<and> status < 300)"

record request =
  meth :: string
  url :: string
  headers :: "string list"
  body :: "string option"

text \<open>Line 13: \<^verbatim>\<open>curl -s http://localhost:8003/api > /dev/null\<close>.\<close>

definition liveness_request :: request where
  "liveness_request =
     \<lparr>meth = ''GET'', url = ''http://localhost:8003/api'', headers = [], body = None\<rparr>"

text \<open>Lines 18 to 20: the blank navigation that pre-warms the browser.\<close>

definition prewarm_request :: request where
  "prewarm_request =
     \<lparr>meth = ''POST'', url = ''http://localhost:8003/api/automation/navigate_to'',
      headers = [''Content-Type: application/json''],
      body = Some ''{\"url\": \"about:blank\"}''\<rparr>"

subsection \<open>The world and the events of a run\<close>

record world =
  liveness :: "nat \<Rightarrow> curl_outcome"
  navigate :: curl_outcome
  browser_exit :: "nat option"

datatype event =
  Echo string
  | Spawn string
  | Curl request curl_outcome
  | Sleep nat
  | Wait

text \<open>How control left the \<^verbatim>\<open>for\<close> loop: through \<^verbatim>\<open>break\<close> in some round, or because the
  list of rounds ran out.\<close>

datatype loop_exit = Break nat | Exhausted

record run =
  events :: "event list"
  left_by :: loop_exit
  exit_status :: "nat option"

subsection \<open>The script\<close>

fun digit :: "nat \<Rightarrow> char" where
  "digit n = char_of (48 + n)"

fun show_nat :: "nat \<Rightarrow> string" where
  "show_nat n = (if n < 10 then [digit n] else show_nat (n div 10) @ [digit (n mod 10)])"

text \<open>The condition of the \<^verbatim>\<open>if\<close> on line 13: the exit status of \<^verbatim>\<open>curl\<close> is \<open>0\<close>.\<close>

definition health_confirmed :: "curl_outcome \<Rightarrow> bool" where
  "health_confirmed out = (curl_exit out = 0)"

text \<open>\<^verbatim>\<open>cmd || true\<close>: \<^verbatim>\<open>true\<close> runs when \<^verbatim>\<open>cmd\<close> fails, so the status of the list is \<open>0\<close>
  either way.\<close>

definition or_true :: "nat \<Rightarrow> nat" where
  "or_true status = (if status = 0 then status else 0)"

text \<open>The status of the command list on lines 18 to 20.\<close>

definition prewarm_status :: "world \<Rightarrow> nat" where
  "prewarm_status w = or_true (curl_exit (navigate w))"

text \<open>Lines 14 to 22, the body of the \<^verbatim>\<open>if\<close> up to the \<^verbatim>\<open>break\<close>.\<close>

definition confirm :: "world \<Rightarrow> event list" where
  "confirm w =
     [Echo ''Browser API is ready!'',
      Echo ''Pre-warming browser...'',
      Curl prewarm_request (navigate w),
      Echo ''Browser pre-warming complete!'']"

text \<open>Lines 25 and 26, the rest of a round whose check failed.\<close>

definition retry :: "nat \<Rightarrow> event list" where
  "retry i = [Echo (''Waiting... ('' @ show_nat i @ ''/30)''), Sleep 1]"

text \<open>Lines 12 to 27: \<^verbatim>\<open>for i in {1..30}\<close> over the rounds still to run.\<close>

fun poll :: "world \<Rightarrow> nat list \<Rightarrow> event list \<times> loop_exit" where
  "poll w [] = ([], Exhausted)"
| "poll w (i # rounds) =
     (if health_confirmed (liveness w i)
      then (Curl liveness_request (liveness w i) # confirm w, Break i)
      else (case poll w rounds of
              (evs, how) \<Rightarrow> (Curl liveness_request (liveness w i) # retry i @ evs, how)))"

text \<open>A round whose check failed, whole.\<close>

definition failed_round :: "world \<Rightarrow> nat \<Rightarrow> event list" where
  "failed_round w i = Curl liveness_request (liveness w i) # retry i"

definition rounds :: "nat list" where
  "rounds = [1..<31]"

text \<open>The whole script. Its exit status is that of its last command,
  \<^verbatim>\<open>wait $BROWSER_PID\<close>, which is the status the browser process ends with; a browser
  that never ends (\<open>None\<close>) keeps the script waiting.\<close>

definition start_browser :: "world \<Rightarrow> run" where
  "start_browser w =
     (case poll w rounds of
        (evs, how) \<Rightarrow>
          \<lparr>events =
             [Echo ''Starting Browser API service...'',
              Spawn ''python /app/browser_api.py'',
              Echo ''Waiting for Browser API to start...'']
             @ evs @ [Wait],
           left_by = how,
           exit_status = browser_exit w\<rparr>)"

text \<open>The script names no states. The sandbox counts as ready when the loop was left
  through \<^verbatim>\<open>break\<close>, that is after line 22 has announced the end of pre-warming.\<close>

definition ready :: "run \<Rightarrow> bool" where
  "ready r = (case left_by r of Break i \<Rightarrow> True | Exhausted \<Rightarrow> False)"

definition preamble :: "event list" where
  "preamble =
     [Echo ''Starting Browser API service...'',
      Spawn ''python /app/browser_api.py'',
      Echo ''Waiting for Browser API to start...'']"

text \<open>Three worlds to run the script in: the API never answers; the API answers the
  third check, and the pre-warming navigation breaks down; the API answers every check
  with status 500.\<close>

definition dead_world :: world where
  "dead_world =
     \<lparr>liveness = (\<lambda>i. TransferFailed CouldntConnect),
      navigate = TransferFailed CouldntConnect,
      browser_exit = Some 0\<rparr>"

definition slow_world :: world where
  "slow_world =
     \<lparr>liveness = (\<lambda>i. if i < 3 then TransferFailed CouldntConnect else Responded 200),
      navigate = TransferFailed OperationTimedout,
      browser_exit = Some 0\<rparr>"

definition erring_world :: world where
  "erring_world =
     \<lparr>liveness = (\<lambda>i. Responded 500),
      navigate = Responded 500,
      browser_exit = Some 0\<rparr>"

text \<open>Which events are requests to the liveness endpoint and to the navigation
  endpoint.\<close>

fun is_liveness_poll :: "event \<Rightarrow> bool" where
  "is_liveness_poll (Curl r out) = (r = liveness_request)"
| "is_liveness_poll e = False"

fun is_prewarm :: "event \<Rightarrow> bool" where
  "is_prewarm (Curl r out) = (r = prewarm_request)"
| "is_prewarm e = False"

section \<open>JavaScript values used by the front end\<close>

text \<open>
  A JavaScript string is a sequence of UTF-16 code units. A literal of the source is
  written \<open>js ''...''\<close>.
\<close>

type_synonym jsstring = "nat list"

definition js :: "string \<Rightarrow> jsstring" where
  "js s = map of_char s"

text \<open>
  \<^verbatim>\<open>String.prototype.trim\<close> removes white space and line terminators from both ends:
  TAB, LF, VT, FF, CR, SPACE, NO-BREAK SPACE, the other space separators of Unicode,
  LINE SEPARATOR, PARAGRAPH SEPARATOR and the byte order mark. All of them are single
  code units.
\<close>

definition is_white_space :: "nat \<Rightarrow> bool" where
  "is_white_space c =
     (c \<in> set [9, 10, 11, 12, 13, 32, 160, 5760, 8232, 8233, 8239, 8287, 12288, 65279]
      \<or> (8192 \<le> c \<and> c \<le> 8202))"

definition trim :: "jsstring \<Rightarrow> jsstring" where
  "trim s = rev (dropWhile is_white_space (rev (dropWhile is_white_space s)))"

text \<open>A string is falsy exactly when it is empty.\<close>

definition truthy :: "jsstring \<Rightarrow> bool" where
  "truthy s = (s \<noteq> [])"

text \<open>A value that is a string, \<^verbatim>\<open>undefined\<close> or \<^verbatim>\<open>null\<close>, with its truthiness, its
  rendering in a template literal, and the operators \<^verbatim>\<open>||\<close> and \<^verbatim>\<open>??\<close> with a string
  default.\<close>

datatype jsval = Undefined | Null | Str jsstring

fun truthy_val :: "jsval \<Rightarrow> bool" where
  "truthy_val (Str s) = truthy s"
| "truthy_val v = False"

fun to_string :: "jsval \<Rightarrow> jsstring" where
  "to_string Undefined = js ''undefined''"
| "to_string Null = js ''null''"
| "to_string (Str s) = s"

definition or_else :: "jsval \<Rightarrow> jsstring \<Rightarrow> jsstring" where
  "or_else v d = (if truthy_val v then to_string v else d)"

fun nullish_else :: "jsval \<Rightarrow> jsstring \<Rightarrow> jsstring" where
  "nullish_else (Str s) d = s"
| "nullish_else v d = d"

text \<open>\<^verbatim>\<open>String(b)\<close> for a boolean.\<close>

definition string_of_bool :: "bool \<Rightarrow> jsstring" where
  "string_of_bool b = (if b then js ''true'' else js ''false'')"


section \<open>The custom model dialog, \<^verbatim>\<open>custom-model-dialog.tsx\<close>\<close>

record CustomModelFormData =
  id' :: jsstring
  label :: jsstring

text \<open>What the component does to the outside: it stops the propagation of a click, and
  it calls the callbacks \<^verbatim>\<open>onSave\<close> and \<^verbatim>\<open>onClose\<close> of its properties.\<close>

datatype dialog_effect =
  StopPropagation
  | OnSave CustomModelFormData
  | OnClose

text \<open>Lines 44 to 49.\<close>

definition handleSave :: "CustomModelFormData \<Rightarrow> dialog_effect list" where
  "handleSave formData =
     StopPropagation # (if truthy (trim (id' formData)) then [OnSave formData] else [])"

text \<open>Lines 51 to 53.\<close>

definition handleClose :: "dialog_effect list" where
  "handleClose = [OnClose]"

text \<open>Lines 56 to 62: the input whose element id is \<^verbatim>\<open>modelId\<close> sets the field \<^verbatim>\<open>id\<close>, any
  other input sets \<^verbatim>\<open>label\<close>.\<close>

definition handleChange :: "jsstring \<Rightarrow> jsstring \<Rightarrow> CustomModelFormData \<Rightarrow> CustomModelFormData" where
  "handleChange target_id val prev =
     (if target_id = js ''modelId'' then prev\<lparr>id' := val\<rparr> else prev\<lparr>label := val\<rparr>)"

text \<open>Line 116: the property \<^verbatim>\<open>disabled\<close> of the save button.\<close>

definition save_disabled :: "CustomModelFormData \<Rightarrow> bool" where
  "save_disabled formData = (\<not> truthy (trim (id' formData)))"

text \<open>
  What a user or the parent component can do to the dialog: type into an input, click
  the save button (a disabled button delivers no click), click cancel, press escape or
  click outside, and open the dialog with new initial data (the effect on lines 40 to
  42 then resets the form).
\<close>

datatype dialog_event =
  Change jsstring jsstring
  | ClickSave
  | ClickCancel
  | Dismiss
  | Reset CustomModelFormData

fun dialog_step :: "dialog_event \<Rightarrow> CustomModelFormData \<Rightarrow> CustomModelFormData \<times> dialog_effect list" where
  "dialog_step (Change target_id val) formData = (handleChange target_id val formData, [])"
| "dialog_step ClickSave formData =
     (formData, if save_disabled formData then [] else handleSave formData)"
| "dialog_step ClickCancel formData = (formData, StopPropagation # handleClose)"
| "dialog_step Dismiss formData = (formData, handleClose)"
| "dialog_step (Reset initialData) formData = (initialData, [])"

fun dialog_run :: "dialog_event list \<Rightarrow> CustomModelFormData \<Rightarrow> dialog_effect list" where
  "dialog_run [] formData = []"
| "dialog_run (e # es) formData =
     (case dialog_step e formData of (formData', effs) \<Rightarrow> effs @ dialog_run es formData')"

text \<open>
  A session at the dialog: it opens with empty fields; the user clicks save, types
  blanks into the id and clicks save, types an id with a blank on either side and
  clicks save, then the form is reset to empty and save is clicked once more.
\<close>

definition blank_form :: CustomModelFormData where
  "blank_form = \<lparr>id' = [], label = []\<rparr>"

definition padded_form :: CustomModelFormData where
  "padded_form = \<lparr>id' = js '' gpt '', label = []\<rparr>"

definition typing_session :: "dialog_event list" where
  "typing_session =
     [ClickSave,
      Change (js ''modelId'') (js ''   ''), ClickSave,
      Change (js ''modelId'') (js '' gpt ''), ClickSave,
      Reset blank_form, ClickSave]"


section \<open>The dashboard page: \<^verbatim>\<open>handleSubmit\<close>\<close>

text \<open>An attached file, with its name.\<close>

datatype pending_file = File jsstring

fun file_name :: "pending_file \<Rightarrow> jsstring" where
  "file_name (File n) = n"

text \<open>The optional second argument of \<^verbatim>\<open>handleSubmit\<close>; each field may be missing.\<close>

record submit_options =
  model_name :: jsval
  enable_thinking :: "bool option"
  reasoning_effort :: jsval
  stream :: "bool option"
  enable_context_manager :: "bool option"

text \<open>An entry of the \<^verbatim>\<open>FormData\<close> sent to the server.\<close>

datatype form_value = Text jsstring | Blob pending_file jsstring

type_synonym form_data = "(jsstring \<times> form_value) list"

text \<open>
  The detail of a \<^verbatim>\<open>BillingError\<close>, and the argument \<^verbatim>\<open>handleBillingError\<close> is called
  with. A subscription is a price id and a plan name.
\<close>

record billing_detail =
  detail_message :: jsval
  detail_currentUsage :: "nat option"
  detail_limit :: "nat option"
  detail_subscription :: "(jsstring \<times> jsstring) option"

record billing_alert =
  alert_message :: jsstring
  alert_currentUsage :: "nat option"
  alert_limit :: "nat option"
  alert_subscription :: "jsstring \<times> jsstring"

datatype submit_error = BillingError billing_detail | OtherError

text \<open>How \<^verbatim>\<open>initiateAgentMutation.mutateAsync\<close> ends: it resolves with a result, whose
  \<^verbatim>\<open>thread_id\<close> may be missing, or it rejects.\<close>

datatype mutation_outcome = Resolved jsval | Rejected submit_error

text \<open>
  What the handler reads: the state \<^verbatim>\<open>isSubmitting\<close> as its closure holds it, the
  pending files of the chat input (\<open>None\<close> when \<^verbatim>\<open>chatInputRef.current\<close> is null), the
  price id of the free tier from the configuration, which is not part of these
  sources, and the answer of the server to a form.
\<close>

record dashboard =
  isSubmitting :: bool
  pendingFiles :: "pending_file list option"
  free_price_id :: jsstring
  mutateAsync :: "form_data \<Rightarrow> mutation_outcome"

datatype submit_effect =
  SetIsSubmitting bool
  | LocalStorageRemove jsstring
  | ConsoleLog jsstring
  | ConsoleError jsstring
  | Mutate form_data
  | RouterPush jsstring
  | ClearPendingFiles
  | HandleBillingError billing_alert

definition PENDING_PROMPT_KEY :: jsstring where
  "PENDING_PROMPT_KEY = js ''pendingAgentPrompt''"

text \<open>\<^verbatim>\<open>chatInputRef.current?.getPendingFiles().length\<close> is falsy when the reference is
  null and when the list is empty.\<close>

definition has_pending_files :: "dashboard \<Rightarrow> bool" where
  "has_pending_files d = (case pendingFiles d of None \<Rightarrow> False | Some fs \<Rightarrow> length fs \<noteq> 0)"

text \<open>The condition of the \<^verbatim>\<open>if\<close> on lines 88 to 91.\<close>

definition submit_refused :: "dashboard \<Rightarrow> jsstring \<Rightarrow> bool" where
  "submit_refused d message =
     ((\<not> truthy (trim message) \<and> \<not> has_pending_files d) \<or> isSubmitting d)"

text \<open>Lines 100 to 111: the form.\<close>

definition option_field :: "submit_options option \<Rightarrow> (submit_options \<Rightarrow> 'a) \<Rightarrow> 'a \<Rightarrow> 'a" where
  "option_field options field missing = (case options of None \<Rightarrow> missing | Some opts \<Rightarrow> field opts)"

definition build_form :: "jsstring \<Rightarrow> pending_file list \<Rightarrow> submit_options option \<Rightarrow> form_data" where
  "build_form message files options =
     [(js ''prompt'', Text message)]
     @ map (\<lambda>f. (js ''files'', Blob f (file_name f))) files
     @ (if truthy_val (option_field options model_name Undefined)
        then [(js ''model_name'', Text (to_string (option_field options model_name Undefined)))]
        else [])
     @ [(js ''enable_thinking'',
          Text (string_of_bool
            (case option_field options enable_thinking None of None \<Rightarrow> False | Some b \<Rightarrow> b))),
        (js ''reasoning_effort'',
          Text (nullish_else (option_field options reasoning_effort Undefined) (js ''low''))),
        (js ''stream'',
          Text (string_of_bool
            (case option_field options stream None of None \<Rightarrow> True | Some b \<Rightarrow> b))),
        (js ''enable_context_manager'',
          Text (string_of_bool
            (case option_field options enable_context_manager None of
               None \<Rightarrow> False | Some b \<Rightarrow> b)))]"

text \<open>Lines 124 to 139: the \<^verbatim>\<open>catch\<close> block.\<close>

definition on_submit_error :: "dashboard \<Rightarrow> submit_error \<Rightarrow> submit_effect list" where
  "on_submit_error d err =
     ConsoleError (js ''Error during submission process:'') #
     (case err of
        BillingError detail \<Rightarrow>
          [ConsoleLog (js ''Handling BillingError:''),
           HandleBillingError
             \<lparr>alert_message =
                or_else (detail_message detail)
                  (js ''Monthly usage limit reached. Please upgrade your plan.''),
              alert_currentUsage = detail_currentUsage detail,
              alert_limit = detail_limit detail,
              alert_subscription =
                (case detail_subscription detail of
                   None \<Rightarrow> (free_price_id d, js ''Free'')
                 | Some sub \<Rightarrow> sub)\<rparr>]
      | OtherError \<Rightarrow> [])"

text \<open>Lines 96 to 123: the \<^verbatim>\<open>try\<close> block, with the error it throws if any.\<close>

definition try_submit ::
  "dashboard \<Rightarrow> jsstring \<Rightarrow> submit_options option \<Rightarrow> submit_effect list \<times> submit_error option" where
  "try_submit d message options =
     (let files = (case pendingFiles d of None \<Rightarrow> [] | Some fs \<Rightarrow> fs);
          formData = build_form message files options;
          before = [LocalStorageRemove PENDING_PROMPT_KEY,
                    ConsoleLog (js ''FormData content:''),
                    Mutate formData]
      in case mutateAsync d formData of
           Rejected err \<Rightarrow> (before, Some err)
         | Resolved thread_id \<Rightarrow>
             if truthy_val thread_id
             then (before @ [ConsoleLog (js ''Agent initiated:''),
                             RouterPush (js ''/agents/'' @ to_string thread_id)]
                          @ (case pendingFiles d of None \<Rightarrow> [] | Some fs \<Rightarrow> [ClearPendingFiles]),
                   None)
             else (before @ [ConsoleLog (js ''Agent initiated:'')], Some OtherError))"

text \<open>Lines 78 to 143.\<close>

definition handleSubmit ::
  "dashboard \<Rightarrow> jsstring \<Rightarrow> submit_options option \<Rightarrow> submit_effect list" where
  "handleSubmit d message options =
     (if submit_refused d message then []
      else SetIsSubmitting True #
           (case try_submit d message options of
              (effs, None) \<Rightarrow> effs
            | (effs, Some err) \<Rightarrow> effs @ on_submit_error d err)
           @ [SetIsSubmitting False])"

text \<open>The state \<^verbatim>\<open>isSubmitting\<close> once the effects have been applied.\<close>

fun submitting_after :: "bool \<Rightarrow> submit_effect list \<Rightarrow> bool" where
  "submitting_after b [] = b"
| "submitting_after b (SetIsSubmitting v # effs) = submitting_after v effs"
| "submitting_after b (e # effs) = submitting_after b effs"

fun is_mutate :: "submit_effect \<Rightarrow> bool" where
  "is_mutate (Mutate formData) = True"
| "is_mutate e = False"

text \<open>A page that is submitting, one that is idle with a file attached, and a server
  that answers every form with the thread \<^verbatim>\<open>t1\<close>.\<close>

definition busy_page :: dashboard where
  "busy_page =
     \<lparr>isSubmitting = True, pendingFiles = Some [File (js ''a.txt'')],
      free_price_id = js ''free'', mutateAsync = (\<lambda>formData. Resolved (Str (js ''t1'')))\<rparr>"

definition idle_page :: dashboard where
  "idle_page =
     \<lparr>isSubmitting = False, pendingFiles = Some [],
      free_price_id = js ''free'', mutateAsync = (\<lambda>formData. Resolved (Str (js ''t1'')))\<rparr>"


section \<open>The share page: \<^verbatim>\<open>generateMetadata\<close>\<close>

text \<open>\<^verbatim>\<open>siteConfig.name\<close> of \<^verbatim>\<open>lib/site.ts\<close>.\<close>

definition siteConfig_name :: jsstring where
  "siteConfig_name = js ''OMNI Operator''"

text \<open>The values the function reads from a thread and from a project.\<close>

record thread =
  project_id :: jsval

record project =
  name :: jsval
  description :: jsval

text \<open>How an awaited fetch ends: it throws, or it returns a value, which may be missing
  (\<^verbatim>\<open>null\<close> or \<^verbatim>\<open>undefined\<close>, here \<open>None\<close>).\<close>

datatype 'a fetched = Throws | Returns "'a option"

text \<open>The environment variables, each a string or \<^verbatim>\<open>undefined\<close>, and the two fetches of
  \<^verbatim>\<open>lib/api-server\<close>, which are not part of these sources.\<close>

record server =
  NEXT_PUBLIC_URL :: jsval
  NODE_ENV :: jsval
  NEXT_PUBLIC_ENV_MODE :: jsval
  getThread :: "jsstring \<Rightarrow> thread fetched"
  getProject :: "jsval \<Rightarrow> project fetched"

record open_graph =
  og_type :: jsstring
  og_locale :: jsstring
  og_title :: jsstring
  og_description :: jsstring
  og_siteName :: jsstring
  og_images :: "jsstring list option"

record twitter_card =
  tw_title :: jsstring
  tw_description :: jsstring
  tw_images :: jsstring
  tw_card :: jsstring

record metadata =
  title :: jsstring
  meta_description :: jsstring
  canonical :: jsstring
  openGraph :: open_graph
  twitter :: "twitter_card option"

text \<open>Lines 11 and 47: the canonical address, a template literal.\<close>

definition canonical_url :: "server \<Rightarrow> jsstring \<Rightarrow> jsstring" where
  "canonical_url srv threadId = to_string (NEXT_PUBLIC_URL srv) @ js ''/share/'' @ threadId"

text \<open>Lines 7 to 20.\<close>

definition fallbackMetaData :: "server \<Rightarrow> jsstring \<Rightarrow> metadata" where
  "fallbackMetaData srv threadId =
     \<lparr>title = js ''Shared Conversation | OMNI Operator'',
      meta_description = js ''Replay this Agent conversation on OMNI Operator'',
      canonical = canonical_url srv threadId,
      openGraph =
        \<lparr>og_type = js ''website'', og_locale = js ''en_US'',
         og_title = js ''Shared Conversation | OMNI Operator'',
         og_description = js ''Replay this Agent conversation on OMNI Operator'',
         og_siteName = siteConfig_name, og_images = None\<rparr>,
      twitter = None\<rparr>"

text \<open>Lines 30 to 33.\<close>

definition isDevelopment :: "server \<Rightarrow> bool" where
  "isDevelopment srv =
     (NODE_ENV srv = Str (js ''development'') \<or>
      NEXT_PUBLIC_ENV_MODE srv = Str (js ''LOCAL'') \<or>
      NEXT_PUBLIC_ENV_MODE srv = Str (js ''local''))"

text \<open>Lines 35 to 63: the metadata of a thread whose project was found.\<close>

definition project_metadata :: "server \<Rightarrow> jsstring \<Rightarrow> project \<Rightarrow> metadata" where
  "project_metadata srv threadId projectData =
     (let title = or_else (name projectData) (js ''Shared Conversation | OMNI Operator'');
          description =
            or_else (description projectData)
              (js ''Replay this Agent conversation on OMNI Operator'');
          ogImage =
            (if isDevelopment srv
             then to_string (NEXT_PUBLIC_URL srv) @ js ''/share-page/og-fallback.png''
             else to_string (NEXT_PUBLIC_URL srv) @ js ''/api/share-page/og-image?title=''
                  @ to_string (name projectData))
      in \<lparr>title = title,
          meta_description = description,
          canonical = canonical_url srv threadId,
          openGraph =
            \<lparr>og_type = js ''website'', og_locale = js ''en_US'',
             og_title = title, og_description = description,
             og_siteName = siteConfig_name, og_images = Some [ogImage]\<rparr>,
          twitter =
            Some \<lparr>tw_title = title, tw_description = description, tw_images = ogImage,
                  tw_card = js ''summary_large_image''\<rparr>\<rparr>)"

text \<open>
  Lines 22 to 63, the \<^verbatim>\<open>try\<close> block: the value it returns, or the error it throws. A
  fetch that throws ends the block; reading \<^verbatim>\<open>project_id\<close> of a missing thread is a
  \<^verbatim>\<open>TypeError\<close>.
\<close>

datatype js_error = FetchFailed | TypeError

definition try_metadata :: "server \<Rightarrow> jsstring \<Rightarrow> js_error + metadata" where
  "try_metadata srv threadId =
     (case getThread srv threadId of
        Throws \<Rightarrow> Inl FetchFailed
      | Returns None \<Rightarrow> Inl TypeError
      | Returns (Some threadData) \<Rightarrow>
          (case getProject srv (project_id threadData) of
             Throws \<Rightarrow> Inl FetchFailed
           | Returns None \<Rightarrow> Inr (fallbackMetaData srv threadId)
           | Returns (Some projectData) \<Rightarrow> Inr (project_metadata srv threadId projectData)))"

text \<open>Lines 5 to 67, for parameters that resolve to \<open>threadId\<close>: the \<^verbatim>\<open>catch\<close> block
  answers every error with the fallback.\<close>

definition generateMetadata :: "server \<Rightarrow> jsstring \<Rightarrow> metadata" where
  "generateMetadata srv threadId =
     (case try_metadata srv threadId of
        Inl error \<Rightarrow> fallbackMetaData srv threadId
      | Inr m \<Rightarrow> m)"

text \<open>The fetches fail or find nothing.\<close>

definition fetch_fails :: "server \<Rightarrow> jsstring \<Rightarrow> bool" where
  "fetch_fails srv threadId =
     (case getThread srv threadId of
        Throws \<Rightarrow> True
      | Returns None \<Rightarrow> True
      | Returns (Some threadData) \<Rightarrow>
          (case getProject srv (project_id threadData) of
             Throws \<Rightarrow> True
           | Returns None \<Rightarrow> True
           | Returns (Some projectData) \<Rightarrow> False))"

text \<open>Four servers: the thread fetch throws; the thread is missing; the project fetch
  throws; and both are found, in production, with no public address configured.\<close>

definition thread_throws :: server where
  "thread_throws =
     \<lparr>NEXT_PUBLIC_URL = Str (js ''https://x.io''), NODE_ENV = Str (js ''production''),
      NEXT_PUBLIC_ENV_MODE = Undefined,
      getThread = (\<lambda>t. Throws), getProject = (\<lambda>p. Throws)\<rparr>"

definition thread_missing :: server where
  "thread_missing = thread_throws\<lparr>getThread := (\<lambda>t. Returns None)\<rparr>"

definition project_throws :: server where
  "project_throws =
     thread_throws\<lparr>getThread := (\<lambda>t. Returns (Some \<lparr>project_id = Str (js ''p1'')\<rparr>))\<rparr>"

definition all_found :: server where
  "all_found =
     \<lparr>NEXT_PUBLIC_URL = Undefined, NODE_ENV = Str (js ''production''),
      NEXT_PUBLIC_ENV_MODE = Undefined,
      getThread = (\<lambda>t. Returns (Some \<lparr>project_id = Str (js ''p1'')\<rparr>)),
      getProject = (\<lambda>p. Returns (Some \<lparr>name = Str (js ''Demo''), description = Null\<rparr>))\<rparr>"


section \<open>The orchestration core the specification describes\<close>

text \<open>
  The sandbox pool, the run executor and the queue consumer of the specification have no
  code among the sources at hand, which start a single sandbox with the script above.
  The definitions of this section are therefore written from the specification, each under a note that says so and names the part of
  the specification it follows. All changes of the pool are serialized (section 5 of
  the specification), so the model runs them one after the other.
\<close>

type_synonym sandbox_id = nat
type_synonym run_id = string

text \<open>Modelled from the spec: the states of a SandboxProcess (section 4.1); its code is
  missing from the sources.\<close>

datatype lifecycle =
  Starting | HealthPolling | PreWarming | Ready | InUse | Draining | Terminated | Failed

text \<open>Modelled from the spec: the error taxonomy of section 7.\<close>

datatype failure =
  LaunchError | HealthCheckTimeout | PoolExhausted | SandboxLost | ExecutionFault | NotReady

text \<open>Modelled from the spec: \<^verbatim>\<open>acquire()\<close> and \<^verbatim>\<open>release()\<close> of a SandboxProcess (section
  4.1), the transition between \<open>Ready\<close> and \<open>InUse\<close>; \<^verbatim>\<open>acquire()\<close> on an instance that is
  not \<open>Ready\<close> fails with \<open>NotReady\<close>.\<close>

definition acquire :: "lifecycle \<Rightarrow> failure + lifecycle" where
  "acquire st = (if st = Ready then Inr InUse else Inl NotReady)"

definition release :: "lifecycle \<Rightarrow> lifecycle" where
  "release st = (if st = InUse then Ready else st)"

text \<open>Modelled from the spec: the start-up of a SandboxProcess (section 4.1), one stage
  at a time, from \<open>Starting\<close> over health polling and pre-warming to \<open>Ready\<close>.\<close>

fun progress :: "lifecycle \<Rightarrow> lifecycle" where
  "progress Starting = HealthPolling"
| "progress HealthPolling = PreWarming"
| "progress PreWarming = Ready"
| "progress st = st"

text \<open>
  Modelled from the spec: the Pool of section 3, a mapping from sandbox identifier to
  SandboxProcess (here its state) bounded by a configured maximum, together with the
  sandbox each RunExecution is bound to (its bound sandbox reference, section 3). The
  counter \<open>fresh\<close> supplies identifiers for new sandboxes.
\<close>

record orchestrator =
  slots :: "(sandbox_id \<times> lifecycle) list"
  bound :: "(run_id \<times> sandbox_id) list"
  maximum :: nat
  fresh :: sandbox_id

definition empty_pool :: "nat \<Rightarrow> orchestrator" where
  "empty_pool n = \<lparr>slots = [], bound = [], maximum = n, fresh = 0\<rparr>"

text \<open>Modelled from the spec: helpers of the SandboxPool (section 4.2): the first
  sandbox that is \<open>Ready\<close>, a change of one sandbox's state, the removal of a sandbox,
  and the creation of a new SandboxProcess, which begins in \<open>Starting\<close>.\<close>

fun first_ready :: "(sandbox_id \<times> lifecycle) list \<Rightarrow> sandbox_id option" where
  "first_ready [] = None"
| "first_ready ((i, st) # rest) = (if st = Ready then Some i else first_ready rest)"

fun update_state ::
  "sandbox_id \<Rightarrow> (lifecycle \<Rightarrow> lifecycle) \<Rightarrow> (sandbox_id \<times> lifecycle) list \<Rightarrow>
   (sandbox_id \<times> lifecycle) list" where
  "update_state i f [] = []"
| "update_state i f ((j, st) # rest) =
     (if j = i then (j, f st) else (j, st)) # update_state i f rest"

definition change :: "sandbox_id \<Rightarrow> (lifecycle \<Rightarrow> lifecycle) \<Rightarrow> orchestrator \<Rightarrow> orchestrator" where
  "change i f s = s\<lparr>slots := update_state i f (slots s)\<rparr>"

definition remove :: "sandbox_id \<Rightarrow> orchestrator \<Rightarrow> orchestrator" where
  "remove i s = s\<lparr>slots := filter (\<lambda>(j, st). j \<noteq> i) (slots s)\<rparr>"

definition create :: "orchestrator \<Rightarrow> orchestrator" where
  "create s = s\<lparr>slots := slots s @ [(fresh s, Starting)], fresh := Suc (fresh s)\<rparr>"

text \<open>Modelled from the spec: the replacement policy of section 4.2: when a sandbox has
  gone and the pool is below its maximum, a replacement is started.\<close>

definition replace :: "orchestrator \<Rightarrow> orchestrator" where
  "replace s = (if length (slots s) < maximum s then create s else s)"

text \<open>Modelled from the spec: \<^verbatim>\<open>releaseSandbox(id, healthy)\<close> of section 4.2: a healthy
  sandbox returns to \<open>Ready\<close>; one reported faulty is drained, terminated and removed
  from the pool, and replaced.\<close>

definition releaseSandbox :: "sandbox_id \<Rightarrow> bool \<Rightarrow> orchestrator \<Rightarrow> orchestrator" where
  "releaseSandbox i healthy s = (if healthy then change i release s else replace (remove i s))"

text \<open>Modelled from the spec: a RunExecutor returns the sandbox it is bound to (section
  4.4: on any terminal transition the bound sandbox is released exactly once). An
  executor bound to nothing has nothing to return.\<close>

definition return_sandbox :: "run_id \<Rightarrow> bool \<Rightarrow> orchestrator \<Rightarrow> orchestrator" where
  "return_sandbox r healthy s =
     (case map_of (bound s) r of
        None \<Rightarrow> s
      | Some i \<Rightarrow> releaseSandbox i healthy (s\<lparr>bound := remove1 (r, i) (bound s)\<rparr>))"

text \<open>
  Modelled from the spec: what can happen to the pool while a caller of
  \<^verbatim>\<open>acquireSandbox\<close> waits, one event per tick of its timeout: nothing; a starting
  sandbox gets one stage further; a sandbox reaches \<open>Failed\<close> (a health check that timed
  out, or crash detection, section 4.1), which removes it, releases whoever is bound to
  it, and starts a replacement; another executor returns its sandbox.
\<close>

datatype pool_event =
  Idle
  | Progress sandbox_id
  | Lost sandbox_id
  | Returned run_id bool

fun apply_event :: "pool_event \<Rightarrow> orchestrator \<Rightarrow> orchestrator" where
  "apply_event Idle s = s"
| "apply_event (Progress i) s = change i progress s"
| "apply_event (Lost i) s =
     replace (remove i (s\<lparr>bound := filter (\<lambda>(r, j). j \<noteq> i) (bound s)\<rparr>))"
| "apply_event (Returned r healthy) s = return_sandbox r healthy s"

text \<open>Modelled from the spec: handing a \<open>Ready\<close> sandbox out marks it \<open>InUse\<close>.\<close>

definition hand_out :: "sandbox_id \<Rightarrow> orchestrator \<Rightarrow> orchestrator" where
  "hand_out i s = change i (\<lambda>st. case acquire st of Inl e \<Rightarrow> st | Inr st' \<Rightarrow> st') s"

text \<open>
  Modelled from the spec: the wait inside \<^verbatim>\<open>acquireSandbox(timeout)\<close> (section 4.2). The
  caller is served as soon as a sandbox is \<open>Ready\<close>; otherwise it waits one tick, during
  which the next event takes place; when the timeout has elapsed it fails with
  \<open>PoolExhausted\<close>.
\<close>

fun await :: "nat \<Rightarrow> pool_event list \<Rightarrow> orchestrator \<Rightarrow> (failure + sandbox_id) \<times> orchestrator" where
  "await t evs s =
     (case first_ready (slots s) of
        Some i \<Rightarrow> (Inr i, hand_out i s)
      | None \<Rightarrow>
          (case t of
             0 \<Rightarrow> (Inl PoolExhausted, s)
           | Suc t' \<Rightarrow>
               (case evs of
                  [] \<Rightarrow> await t' [] s
                | e # rest \<Rightarrow> await t' rest (apply_event e s))))"

text \<open>Modelled from the spec: the first step of \<^verbatim>\<open>acquireSandbox\<close>: with no sandbox
  \<open>Ready\<close> and the pool below its maximum, a new SandboxProcess is created.\<close>

definition admit :: "orchestrator \<Rightarrow> orchestrator" where
  "admit s =
     (case first_ready (slots s) of
        Some i \<Rightarrow> s
      | None \<Rightarrow> if length (slots s) < maximum s then create s else s)"

text \<open>Modelled from the spec: \<^verbatim>\<open>acquireSandbox(timeout)\<close> of section 4.2.\<close>

definition acquireSandbox ::
  "nat \<Rightarrow> pool_event list \<Rightarrow> orchestrator \<Rightarrow> (failure + sandbox_id) \<times> orchestrator" where
  "acquireSandbox timeout evs s = await timeout evs (admit s)"

text \<open>Modelled from the spec: the state machine of a RunExecutor (section 4.4).\<close>

datatype run_state =
  Pending | Acquiring | Executing | Succeeded | RunFailed failure | Requeued

text \<open>Modelled from the spec: the step \<open>Acquiring\<close> of a RunExecutor (section 4.4): it
  calls \<^verbatim>\<open>acquireSandbox\<close>; \<open>PoolExhausted\<close> leads to \<open>Requeued\<close>, a sandbox to \<open>Executing\<close>
  with the run bound to it.\<close>

definition start_run ::
  "run_id \<Rightarrow> nat \<Rightarrow> pool_event list \<Rightarrow> orchestrator \<Rightarrow> run_state \<times> orchestrator" where
  "start_run r timeout evs s =
     (case acquireSandbox timeout evs s of
        (Inl e, s') \<Rightarrow> (Requeued, s')
      | (Inr i, s') \<Rightarrow> (Executing, s'\<lparr>bound := bound s' @ [(r, i)]\<rparr>))"

text \<open>Modelled from the spec: the calls the executors make on the pool, and what else
  happens to it, in the order the pool's lock admits them.\<close>

datatype pool_call =
  Acquire run_id nat "pool_event list"
  | Happens pool_event

fun pool_step :: "pool_call \<Rightarrow> orchestrator \<Rightarrow> orchestrator" where
  "pool_step (Acquire r timeout evs) s = snd (start_run r timeout evs s)"
| "pool_step (Happens e) s = apply_event e s"

fun pool_run :: "pool_call list \<Rightarrow> orchestrator \<Rightarrow> orchestrator" where
  "pool_run [] s = s"
| "pool_run (c # cs) s = pool_run cs (pool_step c s)"

text \<open>Modelled from the spec: the executors that hold a given sandbox, and the
  invariant of section 3: no sandbox is held by two of them.\<close>

definition holders :: "sandbox_id \<Rightarrow> orchestrator \<Rightarrow> run_id list" where
  "holders i s = map fst (filter (\<lambda>(r, j). j = i) (bound s))"

definition exclusive :: "orchestrator \<Rightarrow> bool" where
  "exclusive s = distinct (map snd (bound s))"

text \<open>Modelled from the spec: the state of the pool after the first \<open>k\<close> events.\<close>

definition after :: "nat \<Rightarrow> pool_event list \<Rightarrow> orchestrator \<Rightarrow> orchestrator" where
  "after k evs s = fold apply_event (take k evs) s"

text \<open>Modelled from the spec: the consistency of a pool state the invariants of section 3
  amount to: sandbox identifiers are unique and below the counter, no sandbox is bound
  twice, and a bound sandbox is in the pool and \<open>InUse\<close>.\<close>

definition pool_ok :: "orchestrator \<Rightarrow> bool" where
  "pool_ok s =
     (distinct (map fst (slots s)) \<and> distinct (map snd (bound s)) \<and>
      list_all (\<lambda>(r, i). (i, InUse) \<in> set (slots s)) (bound s) \<and>
      list_all (\<lambda>(i, st). i < fresh s) (slots s))"


text \<open>Modelled from the spec: a Job (section 3) as the queue delivers it (section 6): the
  run identifier, the payload and the delivery attempt count.\<close>

record job =
  run_id :: run_id
  payload :: "nat list"
  attempt :: nat





text \<open>Modelled from the spec: the JobQueueConsumer of section 4.3 with its in-memory set
  of in-flight run identifiers, and the jobs it has dispatched to executors.\<close>

record consumer =
  in_flight :: "run_id list"
  dispatched :: "job list"

datatype reception = Discarded | Dispatched

text \<open>Modelled from the spec: the receive loop of section 4.3, one delivery: a job whose
  run identifier is in flight is acknowledged at once and discarded; any other job is
  recorded as in flight and dispatched.\<close>

definition receive :: "job \<Rightarrow> consumer \<Rightarrow> reception \<times> consumer" where
  "receive j c =
     (if run_id j \<in> set (in_flight c) then (Discarded, c)
      else (Dispatched,
            c\<lparr>in_flight := run_id j # in_flight c, dispatched := dispatched c @ [j]\<rparr>))"

text \<open>Modelled from the spec: a run that reaches a terminal state is no longer in flight
  (section 3, the life cycle of a RunExecution).\<close>

definition complete :: "run_id \<Rightarrow> consumer \<Rightarrow> consumer" where
  "complete r c = c\<lparr>in_flight := removeAll r (in_flight c)\<rparr>"

text \<open>Modelled from the spec: a sequence of deliveries.\<close>

fun receive_all :: "job list \<Rightarrow> consumer \<Rightarrow> consumer" where
  "receive_all [] c = c"
| "receive_all (j # jobs) c = receive_all jobs (snd (receive j c))"

text \<open>The number of executions created for a run identifier.\<close>

definition executions_of :: "run_id \<Rightarrow> consumer \<Rightarrow> nat" where
  "executions_of r c = length (filter (\<lambda>j. run_id j = r) (dispatched c))"

text \<open>The scenarios of section 8: job 42 at its first delivery and at its third, a pool
  at its maximum of one sandbox, which is in use, and a day at a pool of two
  sandboxes.\<close>

definition job_42 :: job where
  "job_42 = \<lparr>run_id = ''42'', payload = [], attempt = 1\<rparr>"



definition busy_day :: "pool_call list" where
  "busy_day =
     [Acquire ''a'' 5 [Progress 0, Progress 0, Progress 0],
      Acquire ''b'' 2 [Idle, Idle],
      Acquire ''c'' 4 [Progress 1, Returned ''a'' True],
      Happens (Returned ''c'' False),
      Acquire ''d'' 9 [Progress 1, Progress 1, Progress 2, Progress 2, Progress 2]]"

definition idle_consumer :: consumer where
  "idle_consumer = \<lparr>in_flight = [], dispatched = []\<rparr>"


section \<open>Properties of the start-up script\<close>

subsection \<open>How the polling loop runs\<close>

lemma requests_differ: "liveness_request \<noteq> prewarm_request"
  by (simp add: liveness_request_def prewarm_request_def)

lemma error_code_pos: "error_code e \<noteq> 0"
  by (cases e) simp_all

lemma health_confirmed_cases:
  "health_confirmed (Responded status)" "\<not> health_confirmed (TransferFailed e)"
  by (simp_all add: health_confirmed_def error_code_pos)

lemma poll_all_fail:
  "\<forall>i\<in>set rs. \<not> health_confirmed (liveness w i) \<Longrightarrow>
   poll w rs = (concat (map (failed_round w) rs), Exhausted)"
  by (induction rs) (simp_all add: failed_round_def)

lemma poll_first_success:
  "\<forall>i\<in>set as. \<not> health_confirmed (liveness w i) \<Longrightarrow> health_confirmed (liveness w k) \<Longrightarrow>
   poll w (as @ k # bs) =
     (concat (map (failed_round w) as) @ Curl liveness_request (liveness w k) # confirm w, Break k)"
  by (induction as) (simp_all add: failed_round_def)

lemma poll_some_success:
  assumes "k \<in> set rs" "health_confirmed (liveness w k)"
  shows "\<exists>as j bs. rs = as @ j # bs \<and> health_confirmed (liveness w j) \<and>
           (\<forall>i\<in>set as. \<not> health_confirmed (liveness w i))"
proof -
  from assms have "\<exists>x\<in>set rs. health_confirmed (liveness w x)" by blast
  from split_list_first_prop [OF this] show ?thesis by blast
qed

lemma poll_Cons_fail:
  "\<not> health_confirmed (liveness w i) \<Longrightarrow>
   fst (poll w (i # rs)) = failed_round w i @ fst (poll w rs) \<and>
   snd (poll w (i # rs)) = snd (poll w rs)"
  by (cases "poll w rs") (simp add: failed_round_def)

lemma no_poll_in_confirm: "filter is_liveness_poll (confirm w) = []"
  using requests_differ by (simp add: confirm_def)

lemma one_poll_in_failed_round: "length (filter is_liveness_poll (failed_round w i)) = 1"
  by (simp add: failed_round_def retry_def)

lemma no_prewarm_in_failed_round: "filter is_prewarm (failed_round w i) = []"
  using requests_differ by (simp add: failed_round_def retry_def)

lemma no_prewarm_in_failed_rounds:
  "filter is_prewarm (concat (map (failed_round w) rs)) = []"
proof (induction rs)
  case Nil
  show ?case by simp
next
  case (Cons i rs)
  have "concat (map (failed_round w) (i # rs)) =
      failed_round w i @ concat (map (failed_round w) rs)" by simp
  then show ?case
    by (simp only: filter_append no_prewarm_in_failed_round Cons.IH append_Nil)
qed

lemma poll_count: "length (filter is_liveness_poll (fst (poll w rs))) \<le> length rs"
proof (induction rs)
  case Nil
  show ?case by simp
next
  case (Cons i rs)
  show ?case
  proof (cases "health_confirmed (liveness w i)")
    case True
    then show ?thesis by (simp add: no_poll_in_confirm)
  next
    case False
    from poll_Cons_fail [OF False] Cons.IH show ?thesis
      by (simp add: one_poll_in_failed_round)
  qed
qed

lemma poll_Break:
  "snd (poll w rs) = Break j \<Longrightarrow> j \<in> set rs \<and> health_confirmed (liveness w j)"
proof (induction rs)
  case Nil
  then show ?case by simp
next
  case (Cons i rs)
  show ?case
  proof (cases "health_confirmed (liveness w i)")
    case True
    with Cons.prems show ?thesis by simp
  next
    case False
    from poll_Cons_fail [OF False] Cons show ?thesis by simp
  qed
qed

lemma events_start_browser: "events (start_browser w) = preamble @ fst (poll w rounds) @ [Wait]"
  by (simp add: start_browser_def preamble_def split: prod.splits)

lemma left_by_start_browser: "left_by (start_browser w) = snd (poll w rounds)"
  by (simp add: start_browser_def split: prod.splits)

lemma exit_status_start_browser: "exit_status (start_browser w) = browser_exit w"
  by (simp add: start_browser_def split: prod.splits)

lemma dead_world_fails: "\<not> health_confirmed (liveness dead_world i)"
  by (simp add: dead_world_def health_confirmed_def)

lemma poll_navigate_irrelevant: "snd (poll (w\<lparr>navigate := x\<rparr>) rs) = snd (poll w rs)"
proof (induction rs)
  case Nil
  show ?case by simp
next
  case (Cons i rs)
  show ?case
  proof (cases "health_confirmed (liveness w i)")
    case True
    then show ?thesis by simp
  next
    case False
    then have "\<not> health_confirmed (liveness (w\<lparr>navigate := x\<rparr>) i)" by simp
    from poll_Cons_fail [OF this] poll_Cons_fail [OF False] Cons.IH show ?thesis
      by (simp del: poll.simps)
  qed
qed

lemma slow_world_breaks: "left_by (start_browser slow_world) = Break 3"
  by (simp add: left_by_start_browser rounds_def slow_world_def health_confirmed_def upt_rec)

subsection \<open>Pre-warming never stands in the way of readiness\<close>

text \<open>
  Claim C1. Once some round of the loop has confirmed health, the script reaches its
  ready point whatever becomes of the pre-warming navigation, a transfer that breaks
  down and an error response included: a failed navigation is swallowed by \<^verbatim>\<open>|| true\<close>, line 22 still announces the end of pre-warming, the loop is
  left through \<^verbatim>\<open>break\<close> in the same round as with a successful navigation, and the
  script's exit status is the browser's, not \<^verbatim>\<open>curl\<close>'s.
\<close>


theorem prewarm_failure_absorbed:
  assumes "k \<in> set rounds" and "health_confirmed (liveness w k)"
  shows "ready (start_browser w) \<and> prewarm_status w = 0 \<and>
         exit_status (start_browser w) = browser_exit w \<and>
         left_by (start_browser w) = left_by (start_browser (w\<lparr>navigate := Responded 200\<rparr>)) \<and>
         (\<exists>pre. events (start_browser w) =
            pre @ [Curl prewarm_request (navigate w), Echo ''Browser pre-warming complete!'', Wait])"
proof -
  from poll_some_success [OF assms(1,2)] obtain as j bs where
    split: "rounds = as @ j # bs" and ok: "health_confirmed (liveness w j)"
    and bad: "\<forall>i\<in>set as. \<not> health_confirmed (liveness w i)" by blast
  have p: "poll w rounds =
      (concat (map (failed_round w) as) @ Curl liveness_request (liveness w j) # confirm w, Break j)"
    unfolding split by (rule poll_first_success [OF bad ok])
  have "ready (start_browser w)"
    by (simp add: ready_def left_by_start_browser p)
  moreover have "prewarm_status w = 0"
    by (simp add: prewarm_status_def or_true_def)
  moreover have "\<exists>pre. events (start_browser w) =
            pre @ [Curl prewarm_request (navigate w), Echo ''Browser pre-warming complete!'', Wait]"
    by (simp add: events_start_browser p confirm_def)
  moreover have "left_by (start_browser w) =
      left_by (start_browser (w\<lparr>navigate := Responded 200\<rparr>))"
    by (simp only: left_by_start_browser poll_navigate_irrelevant)
  ultimately show ?thesis by (simp add: exit_status_start_browser)
qed

theorem prewarm_failure_absorbed_witness:
  "ready (start_browser slow_world) \<and> prewarm_status slow_world = 0 \<and>
   exit_status (start_browser slow_world) = Some 0 \<and>
   navigate slow_world = TransferFailed OperationTimedout"
proof -
  have a: "3 \<in> set rounds" by (simp add: rounds_def)
  have b: "health_confirmed (liveness slow_world 3)"
    by (simp add: slow_world_def health_confirmed_def)
  from prewarm_failure_absorbed [OF a b] show ?thesis by (simp add: slow_world_def)
qed

subsection \<open>The polling loop is bounded, and its exhaustion is not reported\<close>

text \<open>
  Claim C2. As amended. The script sends at most thirty liveness requests. A round
  whose check fails prints a progress line, sleeps one second and goes on to the next
  round. When health is first confirmed in some round, the rounds before it are exactly
  such failed rounds and the loop ends there. When all thirty rounds fail, the loop
  runs out: no pre-warming request is sent, and the script goes on to
  \<^verbatim>\<open>wait $BROWSER_PID\<close> and ends with the browser's exit status, as it does after a
  confirmed round. It has no failure state and reports no time-out.
\<close>


theorem health_polling_bounded:
  "length (filter is_liveness_poll (events (start_browser w))) \<le> 30 \<and>
   ((\<forall>i\<in>set rounds. \<not> health_confirmed (liveness w i)) \<longrightarrow>
      events (start_browser w) = preamble @ concat (map (failed_round w) rounds) @ [Wait] \<and>
      filter is_prewarm (events (start_browser w)) = [] \<and>
      left_by (start_browser w) = Exhausted \<and>
      exit_status (start_browser w) = browser_exit w) \<and>
   (\<forall>as j bs. rounds = as @ j # bs \<and> (\<forall>i\<in>set as. \<not> health_confirmed (liveness w i)) \<and>
        health_confirmed (liveness w j) \<longrightarrow>
      events (start_browser w) =
        preamble @ concat (map (failed_round w) as) @
        Curl liveness_request (liveness w j) # confirm w @ [Wait] \<and>
      left_by (start_browser w) = Break j)"
proof (intro conjI allI impI)
  have "length (filter is_liveness_poll (fst (poll w rounds))) \<le> length rounds"
    by (rule poll_count)
  then show "length (filter is_liveness_poll (events (start_browser w))) \<le> 30"
    by (simp add: events_start_browser preamble_def rounds_def)
next
  assume bad: "\<forall>i\<in>set rounds. \<not> health_confirmed (liveness w i)"
  show ev: "events (start_browser w) = preamble @ concat (map (failed_round w) rounds) @ [Wait]"
    by (simp add: events_start_browser poll_all_fail [OF bad])
  show "filter is_prewarm (events (start_browser w)) = []"
    by (simp add: ev no_prewarm_in_failed_rounds preamble_def)
  show "left_by (start_browser w) = Exhausted"
    by (simp add: left_by_start_browser poll_all_fail [OF bad])
  show "exit_status (start_browser w) = browser_exit w"
    by (rule exit_status_start_browser)
next
  fix as j bs
  assume h: "rounds = as @ j # bs \<and> (\<forall>i\<in>set as. \<not> health_confirmed (liveness w i)) \<and>
        health_confirmed (liveness w j)"
  then have p: "poll w rounds =
      (concat (map (failed_round w) as) @ Curl liveness_request (liveness w j) # confirm w, Break j)"
    using poll_first_success [of as w j bs] by simp
  show "events (start_browser w) =
        preamble @ concat (map (failed_round w) as) @
        Curl liveness_request (liveness w j) # confirm w @ [Wait]"
    by (simp add: events_start_browser p)
  show "left_by (start_browser w) = Break j"
    by (simp add: left_by_start_browser p)
qed

theorem health_polling_bounded_witness:
  "length (filter is_liveness_poll (events (start_browser dead_world))) \<le> 30 \<and>
   events (start_browser dead_world) =
     preamble @ concat (map (failed_round dead_world) rounds) @ [Wait] \<and>
   filter is_prewarm (events (start_browser dead_world)) = [] \<and>
   left_by (start_browser dead_world) = Exhausted \<and>
   exit_status (start_browser dead_world) = Some 0 \<and>
   length (events (start_browser dead_world)) = 94 \<and>
   events (start_browser slow_world) =
     preamble @ failed_round slow_world 1 @ failed_round slow_world 2 @
     Curl liveness_request (Responded 200) # confirm slow_world @ [Wait] \<and>
   left_by (start_browser slow_world) = Break 3"
proof -
  have bad: "\<forall>i\<in>set rounds. \<not> health_confirmed (liveness dead_world i)"
    by (simp add: dead_world_fails)
  have ex: "browser_exit dead_world = Some 0" by (simp add: dead_world_def)
  have "length (failed_round dead_world i) = 3" for i
    by (simp add: failed_round_def retry_def)
  then have "length (concat (map (failed_round dead_world) rounds)) = 90"
    by (simp add: length_concat comp_def sum_list_triv rounds_def)
  then have len: "length (preamble @ concat (map (failed_round dead_world) rounds) @ [Wait]) = 94"
    by (simp add: preamble_def)
  have all: "length (filter is_liveness_poll (events (start_browser dead_world))) \<le> 30 \<and>
    events (start_browser dead_world) =
      preamble @ concat (map (failed_round dead_world) rounds) @ [Wait] \<and>
    filter is_prewarm (events (start_browser dead_world)) = [] \<and>
    left_by (start_browser dead_world) = Exhausted \<and>
    exit_status (start_browser dead_world) = browser_exit dead_world"
    using health_polling_bounded [of dead_world] bad by blast
  have split: "rounds = [1, 2] @ 3 # [4..<31]"
    by (simp add: rounds_def upt_rec)
  have early: "\<forall>i\<in>set [1, 2]. \<not> health_confirmed (liveness slow_world i)"
    by (simp add: slow_world_def health_confirmed_def)
  have third: "health_confirmed (liveness slow_world 3)"
    by (simp add: slow_world_def health_confirmed_def)
  have ans: "liveness slow_world 3 = Responded 200" by (simp add: slow_world_def)
  from health_polling_bounded [of slow_world] split early third
  have slow: "events (start_browser slow_world) =
        preamble @ concat (map (failed_round slow_world) [1, 2]) @
        Curl liveness_request (liveness slow_world 3) # confirm slow_world @ [Wait] \<and>
      left_by (start_browser slow_world) = Break 3"
    by blast
  show ?thesis
  proof (intro conjI)
    show "length (filter is_liveness_poll (events (start_browser dead_world))) \<le> 30"
      using all by blast
    show "events (start_browser dead_world) =
        preamble @ concat (map (failed_round dead_world) rounds) @ [Wait]"
      using all by blast
    show "filter is_prewarm (events (start_browser dead_world)) = []"
      using all by blast
    show "left_by (start_browser dead_world) = Exhausted"
      using all by blast
    from all have "exit_status (start_browser dead_world) = browser_exit dead_world"
      by blast
    then show "exit_status (start_browser dead_world) = Some 0"
      by (simp only: ex)
    from all have "events (start_browser dead_world) =
        preamble @ concat (map (failed_round dead_world) rounds) @ [Wait]" by blast
    then show "length (events (start_browser dead_world)) = 94"
      by (simp only: len)
    show "events (start_browser slow_world) =
        preamble @ failed_round slow_world 1 @ failed_round slow_world 2 @
        Curl liveness_request (Responded 200) # confirm slow_world @ [Wait]"
      using slow ans by simp
    show "left_by (start_browser slow_world) = Break 3"
      using slow by blast
  qed
qed

text \<open>
  The claim as first stated asks for a failure once every check has failed. In the world
  where the API never answers, the script ends as in a world where it does: its last
  command is the \<^verbatim>\<open>wait\<close>, and its exit status is \<open>0\<close>.
\<close>

theorem health_timeout_not_signalled:
  "list_all (\<lambda>i. \<not> health_confirmed (liveness dead_world i)) rounds \<and>
   \<not> ready (start_browser dead_world) \<and>
   last (events (start_browser dead_world)) = Wait \<and>
   exit_status (start_browser dead_world) = Some 0 \<and>
   ready (start_browser slow_world) \<and>
   last (events (start_browser slow_world)) = Wait \<and>
   exit_status (start_browser slow_world) = Some 0"
proof -
  have "left_by (start_browser dead_world) = Exhausted"
    by (simp add: left_by_start_browser poll_all_fail dead_world_fails)
  moreover note slow_world_breaks
  ultimately show ?thesis
    by (simp add: ready_def events_start_browser exit_status_start_browser list_all_iff
        dead_world_fails) (simp add: dead_world_def slow_world_def)
qed

subsection \<open>What counts as a health confirmation\<close>

text \<open>
  Claim C3. As amended. A round confirms health exactly when \<^verbatim>\<open>curl\<close> ends with
  status \<open>0\<close>, which it does exactly when the endpoint delivered a response, whatever
  the response's status code: a 2xx response is enough but is not needed. The round in
  which the script leaves the loop is one of the thirty, and one in which the endpoint
  responded.
\<close>


theorem health_confirmed_iff_responded:
  "(health_confirmed out \<longleftrightarrow> (\<exists>status. out = Responded status)) \<and>
   (left_by (start_browser w) = Break j \<longrightarrow>
      j \<in> set rounds \<and> (\<exists>status. liveness w j = Responded status))"
proof -
  have a: "health_confirmed x \<longleftrightarrow> (\<exists>status. x = Responded status)" for x
    by (cases x) (simp_all add: health_confirmed_cases)
  have "j \<in> set rounds \<and> (\<exists>status. liveness w j = Responded status)"
    if "left_by (start_browser w) = Break j"
    using poll_Break [of w rounds j] that a [of "liveness w j"]
    by (simp add: left_by_start_browser)
  with a show ?thesis by blast
qed

theorem health_confirmed_iff_responded_witness:
  "health_confirmed (Responded 204) \<and> \<not> health_confirmed (TransferFailed CouldntConnect) \<and>
   left_by (start_browser slow_world) = Break 3 \<and> liveness slow_world 3 = Responded 200"
proof -
  note d = slow_world_breaks
  have "\<exists>status. liveness slow_world 3 = Responded status"
    using health_confirmed_iff_responded [of "Responded 204" slow_world 3] d by blast
  moreover have "health_confirmed (Responded 204)"
    using health_confirmed_iff_responded [of "Responded 204" slow_world 3] by blast
  moreover have "\<not> health_confirmed (TransferFailed CouldntConnect)"
    using health_confirmed_iff_responded [of "TransferFailed CouldntConnect" slow_world 3] by blast
  ultimately show ?thesis using d by (simp add: slow_world_def)
qed

text \<open>
  The claim as first stated makes a 2xx response necessary. A response with status 500
  confirms health: in the world that answers every check with 500, the script leaves
  the loop in its first round.
\<close>

theorem status_500_confirms_health:
  "health_confirmed (Responded 500) \<and> \<not> is_2xx 500 \<and>
   liveness erring_world 1 = Responded 500 \<and>
   left_by (start_browser erring_world) = Break 1"
  by (simp add: health_confirmed_def is_2xx_def erring_world_def left_by_start_browser
      rounds_def upt_rec)

subsection \<open>Pre-warming comes after health confirmation\<close>

lemma poll_prewarm_guarded:
  "fst (poll w rs) @ [Wait] = pre @ Curl prewarm_request out # post \<Longrightarrow>
   \<exists>ans. Curl liveness_request ans \<in> set pre \<and> health_confirmed ans"
proof (induction rs arbitrary: pre)
  case Nil
  then show ?case by (cases pre) simp_all
next
  case (Cons i rs)
  show ?case
  proof (cases "health_confirmed (liveness w i)")
    case True
    with Cons.prems have "Curl liveness_request (liveness w i) # confirm w @ [Wait] =
        pre @ Curl prewarm_request out # post" by simp
    then have "Curl liveness_request (liveness w i) \<in> set pre"
      using requests_differ by (cases pre) auto
    with True show ?thesis by blast
  next
    case False
    have "fst (poll w (i # rs)) = Curl liveness_request (liveness w i) #
        Echo (''Waiting... ('' @ show_nat i @ ''/30)'') # Sleep 1 # fst (poll w rs)"
      using poll_Cons_fail [OF False, of rs] by (simp add: failed_round_def retry_def)
    with Cons.prems have eq: "Curl liveness_request (liveness w i) #
        Echo (''Waiting... ('' @ show_nat i @ ''/30)'') # Sleep 1 # fst (poll w rs) @ [Wait] =
        pre @ Curl prewarm_request out # post"
      by (simp del: poll.simps)
    then obtain pre' where pre: "pre = Curl liveness_request (liveness w i) #
        Echo (''Waiting... ('' @ show_nat i @ ''/30)'') # Sleep 1 # pre'"
      and rest: "fst (poll w rs) @ [Wait] = pre' @ Curl prewarm_request out # post"
      using requests_differ
      by (cases pre; cases "tl pre"; cases "tl (tl pre)") auto
    from Cons.IH [OF rest] pre show ?thesis by auto
  qed
qed

text \<open>
  Claim C4. In every run of the script, whatever the world answers, each pre-warming
  request in the list of events has before it a liveness request whose check
  succeeded.
\<close>


theorem prewarm_only_after_health:
  assumes "events (start_browser w) = pre @ Curl prewarm_request out # post"
  shows "\<exists>ans. Curl liveness_request ans \<in> set pre \<and> health_confirmed ans"
proof -
  from assms have eq: "preamble @ fst (poll w rounds) @ [Wait] =
      pre @ Curl prewarm_request out # post"
    by (simp add: events_start_browser)
  then obtain pre' where pre: "pre = preamble @ pre'"
    and rest: "fst (poll w rounds) @ [Wait] = pre' @ Curl prewarm_request out # post"
    unfolding preamble_def
    by (cases pre; cases "tl pre"; cases "tl (tl pre)") auto
  from poll_prewarm_guarded [OF rest] pre show ?thesis by auto
qed

theorem prewarm_only_after_health_witness:
  "\<exists>ans. Curl liveness_request ans \<in>
      set (preamble @ [Curl liveness_request (Responded 500),
             Echo ''Browser API is ready!'', Echo ''Pre-warming browser...'']) \<and>
      health_confirmed ans"
proof -
  have "events (start_browser erring_world) =
      (preamble @ [Curl liveness_request (Responded 500),
         Echo ''Browser API is ready!'', Echo ''Pre-warming browser...'']) @
      Curl prewarm_request (Responded 500) # [Echo ''Browser pre-warming complete!'', Wait]"
    by (simp add: events_start_browser rounds_def upt_rec erring_world_def
        health_confirmed_def confirm_def)
  from prewarm_only_after_health [OF this] show ?thesis .
qed

section \<open>Properties of the custom model dialog\<close>

lemma handleSave_guard: "OnSave d \<in> set (handleSave formData) \<Longrightarrow> trim (id' d) \<noteq> []"
  by (auto simp: handleSave_def truthy_def split: if_splits)

lemma dialog_step_guard:
  "dialog_step e formData = (formData', effs) \<Longrightarrow> OnSave d \<in> set effs \<Longrightarrow> trim (id' d) \<noteq> []"
  by (cases e) (auto simp: handleClose_def dest: handleSave_guard split: if_splits)

text \<open>
  Claim C10. The dialog never hands a blank model id to \<^verbatim>\<open>onSave\<close>: whatever the initial
  data and whatever is typed, clicked or reset, every call of \<^verbatim>\<open>onSave\<close> carries form
  data whose id is not empty once trimmed. Two guards give this, each on its own:
  \<^verbatim>\<open>handleSave\<close> calls \<^verbatim>\<open>onSave\<close> only for such an id, and the save button is disabled
  exactly when the trimmed id is empty.
\<close>

theorem no_blank_model_id:
  "(OnSave d \<in> set (dialog_run es formData) \<longrightarrow> trim (id' d) \<noteq> []) \<and>
   (OnSave d \<in> set (handleSave formData) \<longrightarrow> trim (id' d) \<noteq> []) \<and>
   (save_disabled formData \<longleftrightarrow> trim (id' formData) = [])"
proof (intro conjI)
  show "OnSave d \<in> set (dialog_run es formData) \<longrightarrow> trim (id' d) \<noteq> []"
  proof (induction es arbitrary: formData)
    case Nil
    show ?case by simp
  next
    case (Cons e es)
    obtain formData' effs where st: "dialog_step e formData = (formData', effs)"
      by (cases "dialog_step e formData")
    with Cons.IH [of formData'] dialog_step_guard [OF st, of d] show ?case by auto
  qed
  show "OnSave d \<in> set (handleSave formData) \<longrightarrow> trim (id' d) \<noteq> []"
    using handleSave_guard by blast
  show "save_disabled formData \<longleftrightarrow> trim (id' formData) = []"
    by (simp add: save_disabled_def truthy_def)
qed

theorem no_blank_model_id_witness:
  "dialog_run typing_session blank_form = [StopPropagation, OnSave padded_form] \<and>
   handleSave padded_form = [StopPropagation, OnSave padded_form] \<and>
   trim (id' padded_form) \<noteq> [] \<and>
   save_disabled blank_form"
proof -
  have run: "dialog_run typing_session blank_form = [StopPropagation, OnSave padded_form]"
    by (simp add: typing_session_def blank_form_def padded_form_def handleChange_def
        save_disabled_def handleSave_def truthy_def trim_def is_white_space_def js_def)
  have save: "handleSave padded_form = [StopPropagation, OnSave padded_form]"
    by (simp add: padded_form_def handleSave_def truthy_def trim_def is_white_space_def js_def)
  have blank: "trim (id' blank_form) = []"
    by (simp add: blank_form_def trim_def)
  from no_blank_model_id [of padded_form typing_session blank_form] run save blank
  show ?thesis by simp
qed


section \<open>Properties of the dashboard's submit handler\<close>

lemma submit_admitted:
  assumes "\<not> submit_refused d message"
  shows "length (filter is_mutate (handleSubmit d message options)) = 1 \<and>
         hd (handleSubmit d message options) = SetIsSubmitting True \<and>
         last (handleSubmit d message options) = SetIsSubmitting False"
  using assms
  by (auto simp: handleSubmit_def try_submit_def on_submit_error_def Let_def
      split: mutation_outcome.splits option.splits submit_error.splits prod.splits)

text \<open>
  Claim C8. A call of \<^verbatim>\<open>handleSubmit\<close> that finds a submission in flight
  (\<^verbatim>\<open>isSubmitting\<close> is true), or whose message is empty once trimmed while no file is
  pending (the chat input is missing or its list of files is empty), returns at once:
  it has no effect at all, so it starts no agent run and leaves \<^verbatim>\<open>isSubmitting\<close> as it
  was.
\<close>

theorem submit_guard:
  assumes "isSubmitting d \<or>
           (trim message = [] \<and> (pendingFiles d = None \<or> pendingFiles d = Some []))"
  shows "handleSubmit d message options = [] \<and>
         submitting_after (isSubmitting d) (handleSubmit d message options) = isSubmitting d \<and>
         filter is_mutate (handleSubmit d message options) = []"
proof -
  from assms have "submit_refused d message"
    by (auto simp: submit_refused_def truthy_def has_pending_files_def)
  then show ?thesis by (simp add: handleSubmit_def)
qed

theorem submit_guard_witness:
  "handleSubmit busy_page (js ''hello'') None = [] \<and>
   handleSubmit idle_page (js ''   '') None = [] \<and>
   isSubmitting busy_page \<and> trim (js ''   '') = [] \<and> pendingFiles idle_page = Some []"
proof -
  have busy: "isSubmitting busy_page" by (simp add: busy_page_def)
  have blank: "trim (js ''   '') = []" by (simp add: trim_def js_def is_white_space_def)
  have none: "pendingFiles idle_page = Some []" by (simp add: idle_page_def)
  from busy have a: "isSubmitting busy_page \<or>
      (trim (js ''hello'') = [] \<and>
       (pendingFiles busy_page = None \<or> pendingFiles busy_page = Some []))" by blast
  from blank none have b: "isSubmitting idle_page \<or>
      (trim (js ''   '') = [] \<and>
       (pendingFiles idle_page = None \<or> pendingFiles idle_page = Some []))" by blast
  from submit_guard [OF a, of None] submit_guard [OF b, of None] busy blank none
  show ?thesis by simp
qed


section \<open>Properties of the share page's metadata\<close>

lemma canonical_fallback: "canonical (fallbackMetaData srv t) = canonical_url srv t"
  by (simp add: fallbackMetaData_def)

lemma canonical_project: "canonical (project_metadata srv t p) = canonical_url srv t"
  by (simp add: project_metadata_def Let_def)

text \<open>
  Claim C9. \<^verbatim>\<open>generateMetadata\<close> answers every failure of its fetches with the fallback
  metadata: when fetching the thread or the project throws, or finds nothing, the
  result is the fallback, and no error of the \<^verbatim>\<open>try\<close> block gets out. In every case,
  fallback or not, the canonical address of the result is the public address followed
  by \<^verbatim>\<open>/share/\<close> and the thread id.
\<close>

theorem metadata_total:
  "canonical (generateMetadata srv threadId) =
     to_string (NEXT_PUBLIC_URL srv) @ js ''/share/'' @ threadId \<and>
   (fetch_fails srv threadId \<longrightarrow>
      generateMetadata srv threadId = fallbackMetaData srv threadId) \<and>
   (\<forall>e. try_metadata srv threadId = Inl e \<longrightarrow>
      generateMetadata srv threadId = fallbackMetaData srv threadId)"
proof (intro conjI allI impI)
  show "canonical (generateMetadata srv threadId) =
     to_string (NEXT_PUBLIC_URL srv) @ js ''/share/'' @ threadId"
    by (simp add: generateMetadata_def try_metadata_def canonical_fallback canonical_project
        canonical_url_def [symmetric] split: fetched.splits option.splits)
next
  assume "fetch_fails srv threadId"
  then show "generateMetadata srv threadId = fallbackMetaData srv threadId"
    by (auto simp: generateMetadata_def try_metadata_def fetch_fails_def
        split: fetched.splits option.splits)
next
  fix e assume "try_metadata srv threadId = Inl e"
  then show "generateMetadata srv threadId = fallbackMetaData srv threadId"
    by (simp add: generateMetadata_def)
qed

theorem metadata_total_witness:
  "generateMetadata thread_throws (js ''abc'') = fallbackMetaData thread_throws (js ''abc'') \<and>
   generateMetadata thread_missing (js ''abc'') = fallbackMetaData thread_missing (js ''abc'') \<and>
   generateMetadata project_throws (js ''abc'') = fallbackMetaData project_throws (js ''abc'') \<and>
   try_metadata thread_missing (js ''abc'') = Inl TypeError \<and>
   canonical (generateMetadata thread_throws (js ''abc'')) = js ''https://x.io/share/abc'' \<and>
   canonical (generateMetadata all_found (js ''abc'')) = js ''undefined/share/abc''"
proof -
  have a: "fetch_fails thread_throws (js ''abc'')"
    by (simp add: fetch_fails_def thread_throws_def)
  have c: "fetch_fails project_throws (js ''abc'')"
    by (simp add: fetch_fails_def project_throws_def thread_throws_def)
  have d: "try_metadata thread_missing (js ''abc'') = Inl TypeError"
    by (simp add: try_metadata_def thread_missing_def thread_throws_def)
  have u: "to_string (NEXT_PUBLIC_URL thread_throws) @ js ''/share/'' @ js ''abc'' =
      js ''https://x.io/share/abc''"
    by (simp add: thread_throws_def js_def)
  have v: "to_string (NEXT_PUBLIC_URL all_found) @ js ''/share/'' @ js ''abc'' =
      js ''undefined/share/abc''"
    by (simp add: all_found_def js_def)
  from metadata_total [of thread_throws "js ''abc''"] a
  have 1: "generateMetadata thread_throws (js ''abc'') = fallbackMetaData thread_throws (js ''abc'')"
    by blast
  from metadata_total [of thread_throws "js ''abc''"]
  have "canonical (generateMetadata thread_throws (js ''abc'')) =
      to_string (NEXT_PUBLIC_URL thread_throws) @ js ''/share/'' @ js ''abc''" by blast
  then have 5: "canonical (generateMetadata thread_throws (js ''abc'')) =
      js ''https://x.io/share/abc''" by (simp only: u)
  from metadata_total [of thread_missing "js ''abc''"] d
  have 2: "generateMetadata thread_missing (js ''abc'') =
      fallbackMetaData thread_missing (js ''abc'')" by blast
  from metadata_total [of project_throws "js ''abc''"] c
  have 3: "generateMetadata project_throws (js ''abc'') =
      fallbackMetaData project_throws (js ''abc'')" by blast
  from metadata_total [of all_found "js ''abc''"]
  have "canonical (generateMetadata all_found (js ''abc'')) =
      to_string (NEXT_PUBLIC_URL all_found) @ js ''/share/'' @ js ''abc''" by blast
  then have 6: "canonical (generateMetadata all_found (js ''abc'')) = js ''undefined/share/abc''"
    by (simp only: v)
  from 1 2 3 d 5 6 show ?thesis by blast
qed


section \<open>Properties of the orchestration core as specified\<close>

subsection \<open>The pool stays consistent\<close>

lemma pool_ok_iff:
  "pool_ok s \<longleftrightarrow>
     distinct (map fst (slots s)) \<and> distinct (map snd (bound s)) \<and>
     (\<forall>r i. (r, i) \<in> set (bound s) \<longrightarrow> (i, InUse) \<in> set (slots s)) \<and>
     (\<forall>i st. (i, st) \<in> set (slots s) \<longrightarrow> i < fresh s)"
  by (auto simp: pool_ok_def list_all_iff)

lemma pool_ok_empty: "pool_ok (empty_pool n)"
  by (simp add: pool_ok_def empty_pool_def)

lemma map_fst_update: "map fst (update_state i f xs) = map fst xs"
  by (induction xs) auto

lemma in_update:
  "(j, st) \<in> set (update_state i f xs) \<longleftrightarrow>
     (if j = i then \<exists>x. (i, x) \<in> set xs \<and> st = f x else (j, st) \<in> set xs)"
  by (induction xs) (auto split: if_splits)

lemma change_fields [simp]:
  "bound (change i f s) = bound s" "fresh (change i f s) = fresh s"
  "maximum (change i f s) = maximum s"
  "map fst (slots (change i f s)) = map fst (slots s)"
  by (simp_all add: change_def map_fst_update)

lemma in_change:
  "(j, st) \<in> set (slots (change i f s)) \<longleftrightarrow>
     (if j = i then \<exists>x. (i, x) \<in> set (slots s) \<and> st = f x else (j, st) \<in> set (slots s))"
  by (simp add: change_def in_update)

lemma pool_ok_change:
  assumes "pool_ok s" and "f InUse = InUse \<or> i \<notin> snd ` set (bound s)"
  shows "pool_ok (change i f s)"
proof -
  from assms(1) have d: "distinct (map fst (slots s))" and b: "distinct (map snd (bound s))"
    and u: "\<And>r j. (r, j) \<in> set (bound s) \<Longrightarrow> (j, InUse) \<in> set (slots s)"
    and fr: "\<And>j st. (j, st) \<in> set (slots s) \<Longrightarrow> j < fresh s"
    unfolding pool_ok_iff by blast+
  have "(j, InUse) \<in> set (slots (change i f s))" if "(r, j) \<in> set (bound s)" for r j
  proof (cases "j = i")
    case True
    with that assms(2) have "f InUse = InUse" by force
    with u [OF that] True show ?thesis by (auto simp: in_change)
  next
    case False
    with u [OF that] show ?thesis by (simp add: in_change)
  qed
  moreover have "j < fresh s" if "(j, st) \<in> set (slots (change i f s))" for j st
    using that fr by (auto simp: in_change split: if_splits)
  ultimately show ?thesis using d b unfolding pool_ok_iff by simp
qed

lemma first_ready_Some: "first_ready xs = Some i \<Longrightarrow> (i, Ready) \<in> set xs"
  by (induction xs) (auto split: if_splits)

lemma distinct_fst_unique:
  "distinct (map fst xs) \<Longrightarrow> (i, a) \<in> set xs \<Longrightarrow> (i, b) \<in> set xs \<Longrightarrow> a = b"
  by (meson eq_key_imp_eq_value)

lemma ready_not_bound:
  assumes "pool_ok s" and "(i, Ready) \<in> set (slots s)"
  shows "i \<notin> snd ` set (bound s)"
proof
  assume "i \<in> snd ` set (bound s)"
  then obtain r where "(r, i) \<in> set (bound s)" by force
  with assms(1) have "(i, InUse) \<in> set (slots s)" unfolding pool_ok_iff by blast
  with assms have "Ready = InUse" unfolding pool_ok_iff by (meson distinct_fst_unique)
  then show False by simp
qed

lemma pool_ok_hand_out:
  assumes "pool_ok s" and "first_ready (slots s) = Some i"
  shows "pool_ok (hand_out i s)" and "(i, InUse) \<in> set (slots (hand_out i s))"
    and "i \<notin> snd ` set (bound (hand_out i s))"
proof -
  from first_ready_Some [OF assms(2)] have r: "(i, Ready) \<in> set (slots s)" .
  from ready_not_bound [OF assms(1) r] have nb: "i \<notin> snd ` set (bound s)" .
  show "pool_ok (hand_out i s)" unfolding hand_out_def
    by (rule pool_ok_change [OF assms(1)]) (simp add: nb)
  show "(i, InUse) \<in> set (slots (hand_out i s))"
    using r by (auto simp: hand_out_def in_change acquire_def)
  show "i \<notin> snd ` set (bound (hand_out i s))" using nb by (simp add: hand_out_def)
qed

lemma pool_ok_create: "pool_ok s \<Longrightarrow> pool_ok (create s)"
  unfolding pool_ok_iff by (fastforce simp: create_def)

lemma pool_ok_replace: "pool_ok s \<Longrightarrow> pool_ok (replace s)"
  by (simp add: replace_def pool_ok_create)

lemma pool_ok_admit: "pool_ok s \<Longrightarrow> pool_ok (admit s)"
  by (simp add: admit_def pool_ok_create split: option.splits)

lemma pool_ok_remove:
  assumes "pool_ok s" and "i \<notin> snd ` set (bound s)"
  shows "pool_ok (remove i s)"
  using assms unfolding pool_ok_iff
  by (auto simp: remove_def distinct_map_filter) force

lemma pool_ok_releaseSandbox:
  assumes "pool_ok s" and "i \<notin> snd ` set (bound s)"
  shows "pool_ok (releaseSandbox i healthy s)"
  using assms
  by (simp add: releaseSandbox_def pool_ok_change pool_ok_replace pool_ok_remove)

lemma pool_ok_unbind:
  assumes "pool_ok s" and "(r, i) \<in> set (bound s)"
  shows "pool_ok (s\<lparr>bound := remove1 (r, i) (bound s)\<rparr>)"
    and "i \<notin> snd ` set (remove1 (r, i) (bound s))"
proof -
  from assms(1) have b: "distinct (map snd (bound s))" unfolding pool_ok_iff by blast
  then have db: "distinct (bound s)" and inj: "inj_on snd (set (bound s))"
    by (simp_all add: distinct_map)
  have sub: "set (remove1 (r, i) (bound s)) \<subseteq> set (bound s)" by (rule set_remove1_subset)
  from inj sub have "inj_on snd (set (remove1 (r, i) (bound s)))" by (rule inj_on_subset)
  with db have "distinct (map snd (remove1 (r, i) (bound s)))"
    by (simp add: distinct_map)
  with assms(1) sub show "pool_ok (s\<lparr>bound := remove1 (r, i) (bound s)\<rparr>)"
    unfolding pool_ok_iff by auto
  show "i \<notin> snd ` set (remove1 (r, i) (bound s))"
  proof
    assume "i \<in> snd ` set (remove1 (r, i) (bound s))"
    then obtain r' where in': "(r', i) \<in> set (remove1 (r, i) (bound s))" by force
    with db have ne: "(r', i) \<noteq> (r, i)" by auto
    from in' sub have "(r', i) \<in> set (bound s)" by blast
    with assms(2) inj have "(r', i) = (r, i)"
      using inj_onD [of snd "set (bound s)" "(r', i)" "(r, i)"] by simp
    with ne show False by simp
  qed
qed

lemma pool_ok_return: "pool_ok s \<Longrightarrow> pool_ok (return_sandbox r healthy s)"
proof -
  assume ok: "pool_ok s"
  show ?thesis
  proof (cases "map_of (bound s) r")
    case None
    with ok show ?thesis by (simp add: return_sandbox_def)
  next
    case (Some i)
    then have mem: "(r, i) \<in> set (bound s)" by (rule map_of_SomeD)
    from pool_ok_unbind [OF ok mem]
    have "pool_ok (releaseSandbox i healthy (s\<lparr>bound := remove1 (r, i) (bound s)\<rparr>))"
      by (intro pool_ok_releaseSandbox) simp_all
    with Some show ?thesis by (simp add: return_sandbox_def)
  qed
qed

lemma pool_ok_lost:
  assumes "pool_ok s"
  shows "pool_ok (replace (remove i (s\<lparr>bound := filter (\<lambda>(r, j). j \<noteq> i) (bound s)\<rparr>)))"
proof -
  let ?s = "s\<lparr>bound := filter (\<lambda>(r, j). j \<noteq> i) (bound s)\<rparr>"
  have "distinct (map snd (filter (\<lambda>(r, j). j \<noteq> i) (bound s)))"
    using assms unfolding pool_ok_iff by (simp add: distinct_map_filter)
  with assms have "pool_ok ?s" unfolding pool_ok_iff by auto
  moreover have "i \<notin> snd ` set (bound ?s)" by auto
  ultimately show ?thesis by (intro pool_ok_replace pool_ok_remove)
qed

lemma pool_ok_event: "pool_ok s \<Longrightarrow> pool_ok (apply_event e s)"
proof (cases e)
  case (Progress i)
  assume "pool_ok s"
  then show ?thesis using Progress by (simp add: pool_ok_change)
qed (simp_all add: pool_ok_return pool_ok_lost)

lemma await_ok:
  assumes "pool_ok s"
  shows "pool_ok (snd (await t evs s)) \<and>
         (\<forall>i. fst (await t evs s) = Inr i \<longrightarrow> i \<notin> snd ` set (bound (snd (await t evs s))) \<and>
              (i, InUse) \<in> set (slots (snd (await t evs s))))"
  using assms
proof (induction t arbitrary: evs s)
  case 0
  then show ?case by (auto simp: pool_ok_hand_out split: option.splits)
next
  case (Suc t)
  show ?case
  proof (cases "first_ready (slots s)")
    case (Some i)
    with Suc.prems show ?thesis by (auto simp: pool_ok_hand_out)
  next
    case None
    show ?thesis
    proof (cases evs)
      case Nil
      with None Suc.IH [OF Suc.prems, of "[]"] show ?thesis by simp
    next
      case (Cons e rest)
      with None Suc.IH [OF pool_ok_event [OF Suc.prems], of rest e] show ?thesis by simp
    qed
  qed
qed

lemma pool_ok_start_run: "pool_ok s \<Longrightarrow> pool_ok (snd (start_run r t evs s))"
proof -
  assume ok: "pool_ok s"
  obtain res s' where a: "await t evs (admit s) = (res, s')" by (cases "await t evs (admit s)")
  from await_ok [OF pool_ok_admit [OF ok], of t evs] a
  have ok': "pool_ok s'" and
    new: "\<And>i. res = Inr i \<Longrightarrow> i \<notin> snd ` set (bound s') \<and> (i, InUse) \<in> set (slots s')"
    by auto
  show ?thesis
  proof (cases res)
    case (Inl e)
    with a ok' show ?thesis by (simp add: start_run_def acquireSandbox_def)
  next
    case (Inr i)
    from new [OF Inr] ok' have "pool_ok (s'\<lparr>bound := bound s' @ [(r, i)]\<rparr>)"
      unfolding pool_ok_iff by auto
    with a Inr show ?thesis by (simp add: start_run_def acquireSandbox_def)
  qed
qed

lemma pool_ok_step: "pool_ok s \<Longrightarrow> pool_ok (pool_step c s)"
  by (cases c) (simp_all add: pool_ok_start_run pool_ok_event)

lemma pool_ok_run: "pool_ok s \<Longrightarrow> pool_ok (pool_run cs s)"
  by (induction cs arbitrary: s) (simp_all add: pool_ok_step)

subsection \<open>No sandbox has two holders\<close>

lemma one_holder: "distinct (map snd xs) \<Longrightarrow> length (filter (\<lambda>(r, j). j = i) xs) \<le> 1"
proof (induction xs)
  case Nil
  show ?case by simp
next
  case (Cons x xs)
  obtain r j where x: "x = (r, j)" by (cases x)
  show ?case
  proof (cases "j = i")
    case True
    with Cons.prems x have "i \<notin> snd ` set xs" by simp
    then have "filter (\<lambda>(r, j). j = i) xs = []"
      by (auto simp: filter_empty_conv image_iff)
    with x True show ?thesis by simp
  next
    case False
    with Cons x show ?thesis by simp
  qed
qed

lemma no_holder: "i \<notin> snd ` set xs \<Longrightarrow> filter (\<lambda>(r, j). j = i) xs = []"
  by (auto simp: filter_empty_conv image_iff)

lemma busy_day_end:
  "pool_run busy_day (empty_pool 2) =
     \<lparr>slots = [(1, InUse), (2, Starting)], bound = [(''d'', 1)], maximum = 2, fresh = 3\<rparr>"
  by (simp add: busy_day_def empty_pool_def start_run_def acquireSandbox_def admit_def
      create_def hand_out_def change_def acquire_def return_sandbox_def releaseSandbox_def
      release_def replace_def remove_def)

lemma next_acquire:
  "acquireSandbox 3 [Progress 2, Progress 2, Progress 2] (pool_run busy_day (empty_pool 2)) =
     (Inr 2, \<lparr>slots = [(1, InUse), (2, InUse)], bound = [(''d'', 1)], maximum = 2, fresh = 3\<rparr>)"
  by (simp add: busy_day_end acquireSandbox_def admit_def hand_out_def change_def acquire_def)

text \<open>
  Claim C5. Whatever calls the executors make on the pool and whatever else happens to
  it, in any order, starting from a consistent pool (the empty one is), no sandbox is
  bound to two executors: the sandboxes bound are pairwise different, each sandbox has
  at most one holder, and a sandbox that \<^verbatim>\<open>acquireSandbox\<close> hands out has no holder at
  that moment. An executor returns only the sandbox it is bound to.
\<close>


theorem pool_exclusive:
  assumes "pool_ok s"
  shows "exclusive (pool_run calls s) \<and>
         length (holders i (pool_run calls s)) \<le> 1 \<and>
         (\<forall>t evs j s'. acquireSandbox t evs (pool_run calls s) = (Inr j, s') \<longrightarrow>
            holders j s' = [])"
proof -
  from pool_ok_run [OF assms] have ok: "pool_ok (pool_run calls s)" .
  then have ex: "exclusive (pool_run calls s)" by (simp add: exclusive_def pool_ok_def)
  then have "length (holders i (pool_run calls s)) \<le> 1"
    using one_holder [of "bound (pool_run calls s)" i]
    by (simp add: holders_def exclusive_def)
  moreover have "holders j s' = []"
    if "acquireSandbox t evs (pool_run calls s) = (Inr j, s')" for t evs j s'
  proof -
    from await_ok [OF pool_ok_admit [OF ok], of t evs] that
    have "j \<notin> snd ` set (bound s')" by (simp add: acquireSandbox_def)
    then show ?thesis by (simp add: holders_def no_holder)
  qed
  ultimately show ?thesis using ex by blast
qed

theorem pool_exclusive_witness:
  "pool_ok (empty_pool 2) \<and>
   exclusive (pool_run busy_day (empty_pool 2)) \<and>
   length (holders 1 (pool_run busy_day (empty_pool 2))) \<le> 1 \<and>
   bound (pool_run busy_day (empty_pool 2)) = [(''d'', 1)] \<and>
   fst (acquireSandbox 3 [Progress 2, Progress 2, Progress 2] (pool_run busy_day (empty_pool 2))) =
     Inr 2 \<and>
   holders 2 (snd (acquireSandbox 3 [Progress 2, Progress 2, Progress 2]
     (pool_run busy_day (empty_pool 2)))) = []"
proof -
  have ok: "pool_ok (empty_pool 2)" by (simp add: pool_ok_def empty_pool_def)
  from pool_exclusive [OF ok, of busy_day 1]
  have a: "exclusive (pool_run busy_day (empty_pool 2))"
    and b: "length (holders 1 (pool_run busy_day (empty_pool 2))) \<le> 1"
    and c: "\<And>t evs j s'. acquireSandbox t evs (pool_run busy_day (empty_pool 2)) = (Inr j, s')
          \<Longrightarrow> holders j s' = []"
    by blast+
  have d: "bound (pool_run busy_day (empty_pool 2)) = [(''d'', 1)]"
    by (simp add: busy_day_end)
  have e: "fst (acquireSandbox 3 [Progress 2, Progress 2, Progress 2]
      (pool_run busy_day (empty_pool 2))) = Inr 2"
    by (simp only: next_acquire fst_conv)
  have f: "holders 2 (snd (acquireSandbox 3 [Progress 2, Progress 2, Progress 2]
      (pool_run busy_day (empty_pool 2)))) = []"
    using c [OF next_acquire] by (simp only: next_acquire snd_conv)
  from ok a b d e f show ?thesis by blast
qed

subsection \<open>A pool that stays exhausted\<close>

lemma after_Nil [simp]: "after k [] s = s"
  by (simp add: after_def)











subsection \<open>Redelivery of a run in flight\<close>

lemma receive_in_flight: "run_id j \<in> set (in_flight c) \<Longrightarrow> receive j c = (Discarded, c)"
  by (simp add: receive_def)

lemma in_flight_after_receive: "run_id j \<in> set (in_flight (snd (receive j c)))"
  by (simp add: receive_def)

lemma receive_all_in_flight:
  "\<forall>x\<in>set jobs. run_id x \<in> set (in_flight c) \<Longrightarrow> receive_all jobs c = c"
  by (induction jobs) (simp_all add: receive_in_flight)

text \<open>
  Claim C6. A delivery whose run identifier is in flight is acknowledged and discarded,
  and changes nothing. So a job delivered again after its first delivery, even with
  another payload or attempt count, leaves the consumer in the state the first delivery
  left it in, and so does any number of such redeliveries: no further execution is
  created for the run identifier.
\<close>


theorem redelivery_idempotent:
  "(run_id j \<in> set (in_flight c) \<longrightarrow> receive j c = (Discarded, c)) \<and>
   (run_id j' = run_id j \<longrightarrow>
      receive j' (snd (receive j c)) = (Discarded, snd (receive j c))) \<and>
   ((\<forall>x\<in>set jobs. run_id x = run_id j) \<longrightarrow>
      receive_all (j # jobs) c = snd (receive j c) \<and>
      executions_of (run_id j) (receive_all (j # jobs) c) =
        executions_of (run_id j) (snd (receive j c)))"
proof (intro conjI impI)
  assume "run_id j \<in> set (in_flight c)"
  then show "receive j c = (Discarded, c)" by (rule receive_in_flight)
next
  assume "run_id j' = run_id j"
  with in_flight_after_receive [of j c]
  have "run_id j' \<in> set (in_flight (snd (receive j c)))" by simp
  then show "receive j' (snd (receive j c)) = (Discarded, snd (receive j c))"
    by (rule receive_in_flight)
next
  assume same: "\<forall>x\<in>set jobs. run_id x = run_id j"
  with in_flight_after_receive [of j c]
  have "\<forall>x\<in>set jobs. run_id x \<in> set (in_flight (snd (receive j c)))" by simp
  then have "receive_all jobs (snd (receive j c)) = snd (receive j c)"
    by (rule receive_all_in_flight)
  then show all: "receive_all (j # jobs) c = snd (receive j c)" by simp
  then show "executions_of (run_id j) (receive_all (j # jobs) c) =
        executions_of (run_id j) (snd (receive j c))" by simp
qed

theorem redelivery_idempotent_witness:
  "receive job_42 idle_consumer =
     (Dispatched, \<lparr>in_flight = [''42''], dispatched = [job_42]\<rparr>) \<and>
   receive (job_42\<lparr>attempt := 2\<rparr>) (snd (receive job_42 idle_consumer)) =
     (Discarded, snd (receive job_42 idle_consumer)) \<and>
   receive job_42 (snd (receive job_42 idle_consumer)) =
     (Discarded, snd (receive job_42 idle_consumer)) \<and>
   receive_all [job_42, job_42\<lparr>attempt := 2\<rparr>, job_42] idle_consumer =
     snd (receive job_42 idle_consumer) \<and>
   executions_of ''42'' (receive_all [job_42, job_42\<lparr>attempt := 2\<rparr>, job_42] idle_consumer) = 1"
proof -
  have first: "receive job_42 idle_consumer =
      (Dispatched, \<lparr>in_flight = [''42''], dispatched = [job_42]\<rparr>)"
    by (simp add: receive_def idle_consumer_def job_42_def)
  have id: "run_id job_42 = ''42''" by (simp add: job_42_def)
  have same: "run_id (job_42\<lparr>attempt := 2\<rparr>) = run_id job_42" by simp
  have all: "\<forall>x\<in>set [job_42\<lparr>attempt := 2\<rparr>, job_42]. run_id x = run_id job_42" by simp
  have one: "executions_of ''42'' (snd (receive job_42 idle_consumer)) = 1"
    by (simp add: first executions_of_def id)
  from redelivery_idempotent
    [of job_42 idle_consumer "job_42\<lparr>attempt := 2\<rparr>" "[job_42\<lparr>attempt := 2\<rparr>, job_42]"]
    same all
  have a: "receive (job_42\<lparr>attempt := 2\<rparr>) (snd (receive job_42 idle_consumer)) =
      (Discarded, snd (receive job_42 idle_consumer))"
    and b: "receive_all [job_42, job_42\<lparr>attempt := 2\<rparr>, job_42] idle_consumer =
      snd (receive job_42 idle_consumer)"
    by blast+
  have inf: "run_id job_42 \<in> set (in_flight (snd (receive job_42 idle_consumer)))"
    by (simp add: first id)
  from redelivery_idempotent [of job_42 "snd (receive job_42 idle_consumer)"] inf
  have a': "receive job_42 (snd (receive job_42 idle_consumer)) =
      (Discarded, snd (receive job_42 idle_consumer))" by blast
  from b one have c: "executions_of ''42''
      (receive_all [job_42, job_42\<lparr>attempt := 2\<rparr>, job_42] idle_consumer) = 1"
    by (simp only:)
  from first a a' b c show ?thesis by blast
qed

end
